theory Spec2Isabelle
  imports Main "HOL-Library.Sublist"
begin

section \<open>Scene nodes, comparison results and merge actions\<close>

text \<open>
  The three-way merge of \<^verbatim>\<open>libs/scene/merge/ThreeWayMergeOperation.cpp\<close> reads two
  comparison results (base against source, base against target) and emits an ordered
  list of merge actions. Nodes of the scene graphs are referred to by identity only, so
  a node is a number and an \<^verbatim>\<open>INodePtr\<close> is an optional node, \<open>None\<close> being the empty
  pointer that \<^verbatim>\<open>findTargetEntityByName\<close> returns for an unknown name.
\<close>

type_synonym node = nat
type_synonym node_ptr = "node option"
type_synonym root = nat

datatype KeyValueDifferenceType = KeyValueAdded | KeyValueRemoved | KeyValueChanged

record KeyValueDifference =
  kv_key :: string
  kv_value :: string
  kv_type :: KeyValueDifferenceType

datatype PrimitiveDifferenceType = PrimitiveAdded | PrimitiveRemoved

record PrimitiveDifference =
  pd_fingerprint :: string
  pd_node :: node_ptr
  pd_type :: PrimitiveDifferenceType

text \<open>
  The entity difference types of the code and the names the specification gives them:
  \<open>EntityMissingInSource\<close> is "RemovedRelativeToBase", \<open>EntityMissingInBase\<close> is
  "AddedRelativeToBase", \<open>EntityPresentButDifferent\<close> is "ModifiedRelativeToBase".
\<close>

datatype EntityDifferenceType =
  EntityMissingInSource | EntityMissingInBase | EntityPresentButDifferent

record EntityDifference =
  entityName :: string
  ed_type :: EntityDifferenceType
  sourceNode :: node_ptr
  sourceFingerprint :: string
  differingKeyValues :: "KeyValueDifference list"
  differingChildren :: "PrimitiveDifference list"

record ComparisonResult =
  baseRootNode :: root
  sourceRootNode :: root
  differingEntities :: "EntityDifference list"

text \<open>
  The parts of the scene graphs the operation reads through
  \<^verbatim>\<open>_targetRoot->foreachNode\<close>, \<^verbatim>\<open>NodeUtils::GetEntityName\<close> and
  \<^verbatim>\<open>NodeUtils::CollectPrimitiveFingerprints\<close> (none of them in the sources at hand, so
  they are parameters): the entity nodes below a root in visiting order, each with its
  name, and the fingerprint-to-node map of the primitives below a node.
\<close>

record scene_graph =
  entityNodes :: "root \<Rightarrow> (string \<times> node) list"
  CollectPrimitiveFingerprints :: "node_ptr \<Rightarrow> string \<rightharpoonup> node"

text \<open>
  Modelled from the spec: the action classes (declared outside the sources at hand),
  after the MergeAction variants of the data model. The key-value actions carry key,
  value and target entity; the two conflict-resolution actions carry the conflicting
  entity and the one or two competing actions.
\<close>

datatype MergeAction =
    AddEntityAction node_ptr root
  | RemoveEntityAction node_ptr
  | AddChildAction node_ptr node_ptr
  | RemoveChildAction node_ptr
  | AddKeyValueAction string string node_ptr
  | ChangeKeyValueAction string string node_ptr
  | RemoveKeyValueAction string string node_ptr
  | EntityConflictResolutionAction node_ptr MergeAction
  | EntityKeyValueConflictResolutionAction node_ptr MergeAction MergeAction

text \<open>
  Exceptions are values. \<open>LogicError\<close> and \<open>RuntimeError\<close> carry the message of the
  \<^verbatim>\<open>std::logic_error\<close> and \<^verbatim>\<open>std::runtime_error\<close> thrown; \<open>AssertionFailed\<close> is the
  abort of a failed \<^verbatim>\<open>assert\<close> and carries the asserted expression. Assertions are
  compiled out when \<^verbatim>\<open>NDEBUG\<close> is defined, so every function that asserts takes the
  flag \<open>assertions\<close>: \<open>True\<close> for a build that checks them.
\<close>

datatype error = LogicError string | RuntimeError string | AssertionFailed string

fun error_message :: "error \<Rightarrow> string" where
  "error_message (LogicError m) = m"
| "error_message (RuntimeError m) = m"
| "error_message (AssertionFailed m) = m"

text \<open>Running two steps one after the other: the first exception ends the run.\<close>

fun then_actions :: "error + 'a list \<Rightarrow> error + 'a list \<Rightarrow> error + 'a list" where
  "then_actions (Inl e) r = Inl e"
| "then_actions (Inr xs) (Inl e) = Inl e"
| "then_actions (Inr xs) (Inr ys) = Inr (xs @ ys)"

section \<open>Key-value differences\<close>

text \<open>
  Modelled from the spec: \<^verbatim>\<open>string::iequals\<close> is not in the sources at hand; keys
  compare case-insensitively. The letters A to Z are folded to lower case, every other
  character stands for itself.
\<close>

definition to_lower :: "char \<Rightarrow> char" where
  "to_lower c =
     (case map_of (zip ''ABCDEFGHIJKLMNOPQRSTUVWXYZ'' ''abcdefghijklmnopqrstuvwxyz'') c of
        Some l \<Rightarrow> l
      | None \<Rightarrow> c)"

definition iequals :: "string \<Rightarrow> string \<Rightarrow> bool" where
  "iequals a b = (map to_lower a = map to_lower b)"

text \<open>
  Modelled from the spec: \<^verbatim>\<open>KeyValueDifference::operator==\<close> is declared outside the
  sources at hand. Two key-value differences are equal iff they have the same key
  (case-insensitively), the same kind and the same value, the value being ignored when
  the kind is Removed.
\<close>

definition kv_equal :: "KeyValueDifference \<Rightarrow> KeyValueDifference \<Rightarrow> bool" where
  "kv_equal a b =
     (iequals (kv_key a) (kv_key b) \<and> kv_type a = kv_type b \<and>
      (if kv_type a = KeyValueRemoved then True else kv_value a = kv_value b))"

definition FindTargetDiffByKey ::
  "KeyValueDifference list \<Rightarrow> string \<Rightarrow> KeyValueDifference option" where
  "FindTargetDiffByKey targetKeyValueDiffs key =
     find (\<lambda>diff. iequals (kv_key diff) key) targetKeyValueDiffs"

definition KeyValueDiffHasConflicts ::
  "bool \<Rightarrow> KeyValueDifference \<Rightarrow> KeyValueDifference \<Rightarrow> error + bool" where
  "KeyValueDiffHasConflicts assertions sourceKeyValueDiff targetKeyValueDiff =
     (if assertions \<and> \<not> iequals (kv_key targetKeyValueDiff) (kv_key sourceKeyValueDiff)
      then Inl (AssertionFailed
                  ''string::iequals(targetKeyValueDiff.key, sourceKeyValueDiff.key)'')
      else
        (case kv_type targetKeyValueDiff of
           KeyValueRemoved \<Rightarrow>
             Inr (kv_type targetKeyValueDiff \<noteq> kv_type sourceKeyValueDiff)
         | KeyValueAdded \<Rightarrow>
             Inr (kv_type sourceKeyValueDiff = KeyValueRemoved \<or>
                  kv_value sourceKeyValueDiff \<noteq> kv_value targetKeyValueDiff)
         | KeyValueChanged \<Rightarrow>
             Inr (kv_type sourceKeyValueDiff = KeyValueRemoved \<or>
                  kv_value sourceKeyValueDiff \<noteq> kv_value targetKeyValueDiff)))"

text \<open>
  Modelled from the spec: \<^verbatim>\<open>createActionForKeyValueDiff\<close> and
  \<^verbatim>\<open>addActionsForPrimitiveDiff\<close> belong to the base class of the operation, which is
  not in the sources at hand. A key-value difference maps to the action matching its
  kind; a child difference applied on its own adds the child to, or removes it from,
  the entity it is applied against.
\<close>

definition createActionForKeyValueDiff :: "KeyValueDifference \<Rightarrow> node_ptr \<Rightarrow> MergeAction" where
  "createActionForKeyValueDiff difference targetEntity =
     (case kv_type difference of
        KeyValueAdded \<Rightarrow> AddKeyValueAction (kv_key difference) (kv_value difference) targetEntity
      | KeyValueRemoved \<Rightarrow>
          RemoveKeyValueAction (kv_key difference) (kv_value difference) targetEntity
      | KeyValueChanged \<Rightarrow>
          ChangeKeyValueAction (kv_key difference) (kv_value difference) targetEntity)"

definition addActionsForPrimitiveDiff :: "PrimitiveDifference \<Rightarrow> node_ptr \<Rightarrow> MergeAction list" where
  "addActionsForPrimitiveDiff difference targetEntity =
     (case pd_type difference of
        PrimitiveAdded \<Rightarrow> [AddChildAction (pd_node difference) targetEntity]
      | PrimitiveRemoved \<Rightarrow> [RemoveChildAction (pd_node difference)])"

section \<open>Reconciling an entity that both sides changed\<close>

text \<open>
  The body of the loop over \<^verbatim>\<open>sourceDiff.differingChildren\<close>: the actions it adds for
  one child difference. \<^verbatim>\<open>targetChildren[fingerprint]\<close> is read only where the
  fingerprint is present.
\<close>

definition processPrimitiveDiff ::
  "(string \<rightharpoonup> node) \<Rightarrow> node_ptr \<Rightarrow> PrimitiveDifference \<Rightarrow> MergeAction list" where
  "processPrimitiveDiff targetChildren targetNode primitiveDiff =
     (let primitivePresentInTargetMap = (targetChildren (pd_fingerprint primitiveDiff) \<noteq> None)
      in case pd_type primitiveDiff of
           PrimitiveAdded \<Rightarrow>
             if \<not> primitivePresentInTargetMap
             then [AddChildAction (pd_node primitiveDiff) targetNode]
             else []
         | PrimitiveRemoved \<Rightarrow>
             if primitivePresentInTargetMap
             then [RemoveChildAction (targetChildren (pd_fingerprint primitiveDiff))]
             else [])"

text \<open>
  The body of the loop over \<^verbatim>\<open>sourceDiff.differingKeyValues\<close>, and the loop itself.
\<close>

definition processKeyValueDiff ::
  "bool \<Rightarrow> node_ptr \<Rightarrow> KeyValueDifference list \<Rightarrow> KeyValueDifference \<Rightarrow>
     error + MergeAction list" where
  "processKeyValueDiff assertions targetNode targetKeyValueDiffs sourceKeyValueDiff =
     (case FindTargetDiffByKey targetKeyValueDiffs (kv_key sourceKeyValueDiff) of
        None \<Rightarrow> Inr [createActionForKeyValueDiff sourceKeyValueDiff targetNode]
      | Some targetKeyValueDiff \<Rightarrow>
          if kv_equal sourceKeyValueDiff targetKeyValueDiff then Inr []
          else
            (case KeyValueDiffHasConflicts assertions sourceKeyValueDiff targetKeyValueDiff of
               Inl e \<Rightarrow> Inl e
             | Inr conflicting \<Rightarrow>
                 if \<not> conflicting
                 then Inr [createActionForKeyValueDiff sourceKeyValueDiff targetNode]
                 else Inr [EntityKeyValueConflictResolutionAction targetNode
                             (createActionForKeyValueDiff sourceKeyValueDiff targetNode)
                             (createActionForKeyValueDiff targetKeyValueDiff targetNode)]))"

fun processKeyValueDiffs ::
  "bool \<Rightarrow> node_ptr \<Rightarrow> KeyValueDifference list \<Rightarrow> KeyValueDifference list \<Rightarrow>
     error + MergeAction list" where
  "processKeyValueDiffs assertions targetNode targetKeyValueDiffs [] = Inr []"
| "processKeyValueDiffs assertions targetNode targetKeyValueDiffs (sourceKeyValueDiff # rest) =
     then_actions
       (processKeyValueDiff assertions targetNode targetKeyValueDiffs sourceKeyValueDiff)
       (processKeyValueDiffs assertions targetNode targetKeyValueDiffs rest)"

definition processEntityModification ::
  "bool \<Rightarrow> scene_graph \<Rightarrow> root \<Rightarrow> EntityDifference \<Rightarrow> EntityDifference \<Rightarrow>
     error + MergeAction list" where
  "processEntityModification assertions graph targetRoot sourceDiff targetDiff =
     (if assertions \<and> ed_type sourceDiff \<noteq> EntityPresentButDifferent
      then Inl (AssertionFailed
        ''sourceDiff.type == ComparisonResult::EntityDifference::Type::EntityPresentButDifferent'')
      else if ed_type targetDiff = EntityMissingInBase
      then Inl (LogicError (''Entity '' @ entityName sourceDiff @
                  '' is marked as modified in source, but as added in the target.''))
      else if ed_type targetDiff = EntityMissingInSource
      then Inr [EntityConflictResolutionAction (sourceNode targetDiff)
                  (AddEntityAction (sourceNode sourceDiff) targetRoot)]
      else
        (let targetChildren = CollectPrimitiveFingerprints graph (sourceNode targetDiff)
         in then_actions
              (Inr (concat (map (processPrimitiveDiff targetChildren (sourceNode targetDiff))
                             (differingChildren sourceDiff))))
              (processKeyValueDiffs assertions (sourceNode targetDiff)
                 (differingKeyValues targetDiff) (differingKeyValues sourceDiff))))"

section \<open>The dictionaries of the operation\<close>

text \<open>
  Modelled from the spec: the members \<^verbatim>\<open>_sourceDifferences\<close>, \<^verbatim>\<open>_targetDifferences\<close>
  and \<^verbatim>\<open>_targetEntities\<close> are declared in the header of the operation, which is not
  among the sources. After the spec they are dictionaries keyed by entity name, one
  value per name (section 4.3, step 1), and the loop over the source dictionary follows
  the order of the comparison result the dictionary was filled from (section 4.3,
  step 3). So a new name enters at the end, \<^verbatim>\<open>m[k] = v\<close> on a name already present
  replaces its value and leaves it in its place, and \<^verbatim>\<open>m.emplace(k, v)\<close> on a name
  already present changes nothing. A dictionary is the list of its pairs in iteration
  order; the iterators the code stores as values are the differences they point to.
\<close>

type_synonym 'v dictionary = "(string \<times> 'v) list"

text \<open>\<^verbatim>\<open>m[k] = v\<close>: the value of an existing key is replaced.\<close>

fun dict_assign :: "string \<Rightarrow> 'v \<Rightarrow> 'v dictionary \<Rightarrow> 'v dictionary" where
  "dict_assign k v [] = [(k, v)]"
| "dict_assign k v ((k', v') # m) =
     (if k = k' then (k, v) # m
      else (k', v') # dict_assign k v m)"

text \<open>\<^verbatim>\<open>m.emplace(k, v)\<close>: an existing key keeps its value.\<close>

fun dict_emplace :: "string \<Rightarrow> 'v \<Rightarrow> 'v dictionary \<Rightarrow> 'v dictionary" where
  "dict_emplace k v [] = [(k, v)]"
| "dict_emplace k v ((k', v') # m) =
     (if k = k' then (k', v') # m
      else (k', v') # dict_emplace k v m)"

definition dict_find :: "'v dictionary \<Rightarrow> string \<Rightarrow> 'v option" where
  "dict_find m k = map_of m k"

text \<open>The two loops that fill the difference dictionaries, and the traversal of the
  target graph that fills the dictionary of the target entities.\<close>

definition indexDifferences :: "EntityDifference list \<Rightarrow> EntityDifference dictionary" where
  "indexDifferences diffs = foldl (\<lambda>m d. dict_assign (entityName d) d m) [] diffs"

definition indexTargetEntities :: "(string \<times> node) list \<Rightarrow> node dictionary" where
  "indexTargetEntities candidates = foldl (\<lambda>m c. dict_emplace (fst c) (snd c) m) [] candidates"

definition findTargetEntityByName :: "node dictionary \<Rightarrow> string \<Rightarrow> node_ptr" where
  "findTargetEntityByName targetEntities name = dict_find targetEntities name"

section \<open>The top-level pass\<close>

text \<open>
  The body of the loop over \<^verbatim>\<open>_sourceDifferences\<close>: the actions added for one pair
  (\<open>name\<close>, \<open>diff\<close>) of the source dictionary, or the exception thrown.
\<close>

definition processSourceDifference ::
  "bool \<Rightarrow> scene_graph \<Rightarrow> root \<Rightarrow> EntityDifference dictionary \<Rightarrow> node dictionary \<Rightarrow>
     string \<times> EntityDifference \<Rightarrow> error + MergeAction list" where
  "processSourceDifference assertions graph targetRoot targetDifferences targetEntities pair =
     (case dict_find targetDifferences (fst pair) of
        None \<Rightarrow>
          (case ed_type (snd pair) of
             EntityMissingInSource \<Rightarrow>
               (let entityToRemove = findTargetEntityByName targetEntities (fst pair)
                in if assertions \<and> entityToRemove = None
                   then Inl (AssertionFailed ''entityToRemove'')
                   else Inr [RemoveEntityAction entityToRemove])
           | EntityMissingInBase \<Rightarrow>
               Inr [AddEntityAction (sourceNode (snd pair)) targetRoot]
           | EntityPresentButDifferent \<Rightarrow>
               (let entityToModify = findTargetEntityByName targetEntities (fst pair)
                in if assertions \<and> entityToModify = None
                   then Inl (AssertionFailed ''entityToModify'')
                   else Inr (map (\<lambda>keyValueDiff.
                                    createActionForKeyValueDiff keyValueDiff entityToModify)
                               (differingKeyValues (snd pair)) @
                             concat (map (\<lambda>primitiveDiff.
                                            addActionsForPrimitiveDiff primitiveDiff entityToModify)
                                       (differingChildren (snd pair))))))
      | Some targetDiff \<Rightarrow>
          (case ed_type (snd pair) of
             EntityMissingInBase \<Rightarrow>
               if ed_type targetDiff = EntityMissingInSource \<or>
                  ed_type targetDiff = EntityPresentButDifferent
               then Inl (LogicError (''Error '' @ fst pair @
                           '' was marked as added in source, but removed/modified in target''))
               else if sourceFingerprint (snd pair) \<noteq> sourceFingerprint targetDiff
               then Inr [AddEntityAction (sourceNode (snd pair)) targetRoot]
               else Inr []
           | EntityMissingInSource \<Rightarrow>
               if ed_type targetDiff = EntityMissingInBase
               then Inl (LogicError (''Error '' @ fst pair @
                           '' was marked as removed in source, but as added in target''))
               else if ed_type targetDiff = EntityMissingInSource
               then Inr []
               else Inr [EntityConflictResolutionAction (sourceNode targetDiff)
                           (RemoveEntityAction (sourceNode targetDiff))]
           | EntityPresentButDifferent \<Rightarrow>
               processEntityModification assertions graph targetRoot (snd pair) targetDiff))"

fun processSourceDifferences ::
  "bool \<Rightarrow> scene_graph \<Rightarrow> root \<Rightarrow> EntityDifference dictionary \<Rightarrow> node dictionary \<Rightarrow>
     EntityDifference dictionary \<Rightarrow> error + MergeAction list" where
  "processSourceDifferences assertions graph targetRoot targetDifferences targetEntities [] =
     Inr []"
| "processSourceDifferences assertions graph targetRoot targetDifferences targetEntities
     (pair # rest) =
     then_actions
       (processSourceDifference assertions graph targetRoot targetDifferences targetEntities pair)
       (processSourceDifferences assertions graph targetRoot targetDifferences targetEntities
          rest)"

definition processEntityDifferences ::
  "bool \<Rightarrow> scene_graph \<Rightarrow> root \<Rightarrow> EntityDifference list \<Rightarrow> EntityDifference list \<Rightarrow>
     error + MergeAction list" where
  "processEntityDifferences assertions graph targetRoot sourceDiffs targetDiffs =
     processSourceDifferences assertions graph targetRoot
       (indexDifferences targetDiffs)
       (indexTargetEntities (entityNodes graph targetRoot))
       (indexDifferences sourceDiffs)"

text \<open>
  The operation as its caller sees it: the three roots and the action list.
\<close>

record ThreeWayMergeOperation =
  op_baseRoot :: root
  op_sourceRoot :: root
  op_targetRoot :: root
  op_actions :: "MergeAction list"

definition CreateFromComparisonResults ::
  "bool \<Rightarrow> scene_graph \<Rightarrow> ComparisonResult \<Rightarrow> ComparisonResult \<Rightarrow>
     error + ThreeWayMergeOperation" where
  "CreateFromComparisonResults assertions graph baseToSource baseToTarget =
     (if baseRootNode baseToSource \<noteq> baseRootNode baseToTarget
      then Inl (RuntimeError ''The base scene of the two comparison results must be the same'')
      else
        (case processEntityDifferences assertions graph (sourceRootNode baseToTarget)
                (differingEntities baseToSource) (differingEntities baseToTarget) of
           Inl e \<Rightarrow> Inl e
         | Inr added \<Rightarrow>
             Inr \<lparr>op_baseRoot = baseRootNode baseToSource,
                  op_sourceRoot = sourceRootNode baseToSource,
                  op_targetRoot = sourceRootNode baseToTarget,
                  op_actions = added\<rparr>))"

section \<open>Notions the properties are stated with\<close>

text \<open>
  The pairings of a source kind with a target kind that cannot come from two comparisons
  against the same base.
\<close>

definition fatal_kinds :: "EntityDifferenceType \<Rightarrow> EntityDifferenceType \<Rightarrow> bool" where
  "fatal_kinds sourceKind targetKind =
     (sourceKind = EntityMissingInBase \<and> targetKind = EntityMissingInSource \<or>
      sourceKind = EntityMissingInBase \<and> targetKind = EntityPresentButDifferent \<or>
      sourceKind = EntityMissingInSource \<and> targetKind = EntityMissingInBase \<or>
      sourceKind = EntityPresentButDifferent \<and> targetKind = EntityMissingInBase)"


text \<open>
  The key an action is about: the key of a key-value action, and for a key-value
  conflict the key of the source action it wraps.
\<close>

fun action_key :: "MergeAction \<Rightarrow> string option" where
  "action_key (AddKeyValueAction k v e) = Some k"
| "action_key (ChangeKeyValueAction k v e) = Some k"
| "action_key (RemoveKeyValueAction k v e) = Some k"
| "action_key (EntityKeyValueConflictResolutionAction e s t) = action_key s"
| "action_key other = None"


text \<open>The entity names in the order in which the top-level loop visits them.\<close>

definition visited_names :: "EntityDifference list \<Rightarrow> string list" where
  "visited_names sourceDiffs = map fst (indexDifferences sourceDiffs)"

text \<open>The actions the top-level loop adds when it visits a name (none for a name it does
  not visit, none when the visit throws).\<close>

definition emitted_for ::
  "bool \<Rightarrow> scene_graph \<Rightarrow> root \<Rightarrow> EntityDifference list \<Rightarrow> EntityDifference list \<Rightarrow>
     string \<Rightarrow> MergeAction list" where
  "emitted_for assertions graph targetRoot sourceDiffs targetDiffs name =
     (case dict_find (indexDifferences sourceDiffs) name of
        None \<Rightarrow> []
      | Some d \<Rightarrow>
          (case processSourceDifference assertions graph targetRoot
                  (indexDifferences targetDiffs)
                  (indexTargetEntities (entityNodes graph targetRoot)) (name, d) of
             Inl e \<Rightarrow> []
           | Inr added \<Rightarrow> added))"

text \<open>
  A graph reflects the child differences of an entity difference when every primitive
  the difference marks as added is among the children of the entity's node and none it
  marks as removed is.
\<close>

definition children_reflected :: "scene_graph \<Rightarrow> EntityDifference \<Rightarrow> bool" where
  "children_reflected graph d =
     list_all (\<lambda>p. case pd_type p of
                      PrimitiveAdded \<Rightarrow>
                        CollectPrimitiveFingerprints graph (sourceNode d) (pd_fingerprint p) \<noteq> None
                    | PrimitiveRemoved \<Rightarrow>
                        CollectPrimitiveFingerprints graph (sourceNode d) (pd_fingerprint p) = None)
       (differingChildren d)"

text \<open>
  A list of key-value differences is the difference of the key-values \<open>other\<close> of an
  entity against its key-values \<open>base\<close> (keys folded to lower case) when every key it
  marks as added is absent from \<open>base\<close> and has the value of the difference in
  \<open>other\<close>, every key it marks as changed is present in \<open>base\<close> with another value and
  has the value of the difference in \<open>other\<close>, and every key it marks as removed is
  present in \<open>base\<close> and absent from \<open>other\<close>.
\<close>

definition keyvalues_difference ::
  "(string \<rightharpoonup> string) \<Rightarrow> (string \<rightharpoonup> string) \<Rightarrow> KeyValueDifference list \<Rightarrow> bool" where
  "keyvalues_difference base other diffs =
     list_all (\<lambda>d. case kv_type d of
                      KeyValueAdded \<Rightarrow>
                        base (map to_lower (kv_key d)) = None \<and>
                        other (map to_lower (kv_key d)) = Some (kv_value d)
                    | KeyValueRemoved \<Rightarrow>
                        base (map to_lower (kv_key d)) \<noteq> None \<and>
                        other (map to_lower (kv_key d)) = None
                    | KeyValueChanged \<Rightarrow>
                        base (map to_lower (kv_key d)) \<noteq> None \<and>
                        base (map to_lower (kv_key d)) \<noteq> Some (kv_value d) \<and>
                        other (map to_lower (kv_key d)) = Some (kv_value d))
       diffs"


section \<open>Properties of the key-value classifier\<close>

lemma iequals_sym: "iequals a b = iequals b a"
  by (auto simp: iequals_def)

text \<open>
  Claim C2. For two key-value differences on the same key (compared case-insensitively),
  \<open>KeyValueDiffHasConflicts\<close> returns true exactly when the target removes the key and
  the source does not, or the target adds or changes the key and the source removes it
  or gives it another value. Removed against Removed, and Added or Changed with equal
  values, are not conflicts.
\<close>

theorem keyValueConflict_iff:
  assumes "iequals (kv_key sourceDiff) (kv_key targetDiff)"
  shows "KeyValueDiffHasConflicts assertions sourceDiff targetDiff =
           Inr ((kv_type targetDiff = KeyValueRemoved \<and> kv_type sourceDiff \<noteq> KeyValueRemoved) \<or>
                (kv_type targetDiff \<in> {KeyValueAdded, KeyValueChanged} \<and>
                 (kv_type sourceDiff = KeyValueRemoved \<or>
                  kv_value sourceDiff \<noteq> kv_value targetDiff)))"
proof -
  from assms have same: "iequals (kv_key targetDiff) (kv_key sourceDiff)"
    by (simp add: iequals_sym)
  show ?thesis
  proof (cases "kv_type targetDiff")
    case KeyValueAdded
    with same show ?thesis by (simp add: KeyValueDiffHasConflicts_def)
  next
    case KeyValueRemoved
    with same show ?thesis by (auto simp: KeyValueDiffHasConflicts_def)
  next
    case KeyValueChanged
    with same show ?thesis by (simp add: KeyValueDiffHasConflicts_def)
  qed
qed

theorem keyValueConflict_iff_witness:
  "iequals ''Origin'' ''origin'' \<and>
   KeyValueDiffHasConflicts True
     \<lparr>kv_key = ''Origin'', kv_value = ''0 0 0'', kv_type = KeyValueChanged\<rparr>
     \<lparr>kv_key = ''origin'', kv_value = ''0 0 8'', kv_type = KeyValueChanged\<rparr> = Inr True \<and>
   KeyValueDiffHasConflicts True
     \<lparr>kv_key = ''Origin'', kv_value = ''0 0 0'', kv_type = KeyValueRemoved\<rparr>
     \<lparr>kv_key = ''origin'', kv_value = ''0 0 8'', kv_type = KeyValueRemoved\<rparr> = Inr False"
  using keyValueConflict_iff [of
      "\<lparr>kv_key = ''Origin'', kv_value = ''0 0 0'', kv_type = KeyValueChanged\<rparr>"
      "\<lparr>kv_key = ''origin'', kv_value = ''0 0 8'', kv_type = KeyValueChanged\<rparr>" True]
    keyValueConflict_iff [of
      "\<lparr>kv_key = ''Origin'', kv_value = ''0 0 0'', kv_type = KeyValueRemoved\<rparr>"
      "\<lparr>kv_key = ''origin'', kv_value = ''0 0 8'', kv_type = KeyValueRemoved\<rparr>" True]
  by (simp add: iequals_def to_lower_def)

text \<open>
  Claim C10. The conflict test is symmetric: on two key-value differences with the same
  key (compared case-insensitively) it gives the same answer whichever of the two is
  taken as the source difference.
\<close>

theorem keyValueConflict_symmetric:
  assumes "iequals (kv_key a) (kv_key b)"
  shows "KeyValueDiffHasConflicts assertions a b = KeyValueDiffHasConflicts assertions b a"
proof -
  from assms have "iequals (kv_key b) (kv_key a)"
    by (simp add: iequals_sym)
  with assms show ?thesis
    by (cases "kv_type a"; cases "kv_type b") (auto simp: KeyValueDiffHasConflicts_def)
qed

theorem keyValueConflict_symmetric_witness:
  "iequals ''name'' ''NAME'' \<and>
   KeyValueDiffHasConflicts True
     \<lparr>kv_key = ''name'', kv_value = ''door'', kv_type = KeyValueAdded\<rparr>
     \<lparr>kv_key = ''NAME'', kv_value = '''', kv_type = KeyValueRemoved\<rparr> =
   KeyValueDiffHasConflicts True
     \<lparr>kv_key = ''NAME'', kv_value = '''', kv_type = KeyValueRemoved\<rparr>
     \<lparr>kv_key = ''name'', kv_value = ''door'', kv_type = KeyValueAdded\<rparr>"
  using keyValueConflict_symmetric [of
      "\<lparr>kv_key = ''name'', kv_value = ''door'', kv_type = KeyValueAdded\<rparr>"
      "\<lparr>kv_key = ''NAME'', kv_value = '''', kv_type = KeyValueRemoved\<rparr>" True]
  by (simp add: iequals_def to_lower_def)

section \<open>The dictionaries\<close>

lemma map_of_dict_assign: "map_of (dict_assign k v m) = (map_of m)(k \<mapsto> v)"
  by (induction m) (auto simp: fun_eq_iff)

lemma keys_dict_assign: "fst ` set (dict_assign k v m) = insert k (fst ` set m)"
proof -
  have "dom (map_of (dict_assign k v m)) = insert k (dom (map_of m))"
    by (simp add: map_of_dict_assign)
  then show ?thesis
    by (simp only: dom_map_of_conv_image_fst)
qed

lemma names_dict_assign:
  "map fst (dict_assign k v m) = (if k \<in> fst ` set m then map fst m else map fst m @ [k])"
proof (induction m)
  case Nil
  then show ?case by simp
next
  case (Cons p m)
  obtain k' v' where p: "p = (k', v')" by (cases p)
  from Cons.IH show ?case
    by (cases "k = k'") (simp_all add: p)
qed

lemma distinct_dict_assign:
  "distinct (map fst m) \<Longrightarrow> distinct (map fst (dict_assign k v m))"
  by (simp add: names_dict_assign)

lemma foldl_assign_map_of:
  "map_of (foldl (\<lambda>m d. dict_assign (entityName d) d m) acc diffs) n = Some d \<Longrightarrow>
   (d \<in> set diffs \<and> entityName d = n) \<or> map_of acc n = Some d"
  by (induction diffs arbitrary: acc) (fastforce simp: map_of_dict_assign split: if_splits)+

lemma indexDifferences_find:
  "dict_find (indexDifferences diffs) n = Some d \<Longrightarrow> d \<in> set diffs \<and> entityName d = n"
  using foldl_assign_map_of [of "[]" diffs n d]
  by (simp add: dict_find_def indexDifferences_def)

lemma foldl_assign_keys_distinct:
  "distinct (map fst acc) \<Longrightarrow>
   distinct (map fst (foldl (\<lambda>m d. dict_assign (entityName d) d m) acc diffs))"
  by (induction diffs arbitrary: acc) (simp_all add: distinct_dict_assign)

lemma indexDifferences_distinct: "distinct (map fst (indexDifferences diffs))"
  using foldl_assign_keys_distinct [of "[]" diffs] by (simp add: indexDifferences_def)

lemma indexDifferences_member:
  "p \<in> set (indexDifferences diffs) \<Longrightarrow> dict_find (indexDifferences diffs) (fst p) = Some (snd p)"
  using indexDifferences_distinct [of diffs] by (simp add: dict_find_def)

lemma keys_dict_emplace: "fst ` set (dict_emplace k v m) = insert k (fst ` set m)"
proof (induction m)
  case Nil
  then show ?case by simp
next
  case (Cons p m)
  obtain k' v' where p: "p = (k', v')" by (cases p)
  from Cons.IH show ?case
    by (cases "k = k'") (simp_all add: p insert_commute)
qed

lemma dom_dict_emplace:
  "dom (map_of (dict_emplace k v m)) = insert k (dom (map_of m))"
  by (simp only: dom_map_of_conv_image_fst keys_dict_emplace)

lemma foldl_emplace_dom:
  "dom (map_of (foldl (\<lambda>m c. dict_emplace (fst c) (snd c) m) acc candidates)) =
   dom (map_of acc) \<union> fst ` set candidates"
  by (induction candidates arbitrary: acc) (simp_all add: dom_dict_emplace)

lemma findTargetEntityByName_None:
  "findTargetEntityByName (indexTargetEntities candidates) name = None \<longleftrightarrow>
   name \<notin> fst ` set candidates"
proof -
  have "dom (map_of (indexTargetEntities candidates)) = fst ` set candidates"
    using foldl_emplace_dom [of "[]" candidates] by (simp add: indexTargetEntities_def)
  then show ?thesis
    unfolding findTargetEntityByName_def dict_find_def by (metis domIff)
qed

text \<open>A comparison result with one difference per entity name is indexed whole.\<close>

lemma foldl_assign_other:
  "n \<notin> entityName ` set diffs \<Longrightarrow>
   map_of (foldl (\<lambda>m d. dict_assign (entityName d) d m) acc diffs) n = map_of acc n"
  by (induction diffs arbitrary: acc) (simp_all add: map_of_dict_assign)

lemma foldl_assign_distinct:
  "distinct (map entityName diffs) \<Longrightarrow> d \<in> set diffs \<Longrightarrow>
   map_of (foldl (\<lambda>m d. dict_assign (entityName d) d m) acc diffs) (entityName d) = Some d"
proof (induction diffs arbitrary: acc)
  case Nil
  then show ?case by simp
next
  case (Cons x diffs)
  show ?case
  proof (cases "d = x")
    case True
    with Cons.prems(1) have "entityName d \<notin> entityName ` set diffs" by simp
    with True show ?thesis
      by (simp add: foldl_assign_other map_of_dict_assign)
  next
    case False
    with Cons show ?thesis by simp
  qed
qed

lemma indexDifferences_complete:
  "distinct (map entityName diffs) \<Longrightarrow> d \<in> set diffs \<Longrightarrow>
   dict_find (indexDifferences diffs) (entityName d) = Some d"
  by (simp add: dict_find_def indexDifferences_def foldl_assign_distinct)

section \<open>The loop over the source dictionary\<close>

lemma then_actions_Inr:
  "then_actions r s = Inr zs \<longleftrightarrow> (\<exists>xs ys. r = Inr xs \<and> s = Inr ys \<and> zs = xs @ ys)"
  by (cases r; cases s) auto

lemma loop_stops_at_error:
  assumes "p \<in> set pairs"
      and "processSourceDifference a g r td te p = Inl e"
  shows "\<exists>e'. processSourceDifferences a g r td te pairs = Inl e'"
  using assms
proof (induction pairs)
  case Nil
  then show ?case by simp
next
  case (Cons q pairs)
  show ?case
  proof (cases "processSourceDifference a g r td te q")
    case (Inl e')
    then show ?thesis by simp
  next
    case (Inr xs)
    with Cons obtain e' where "processSourceDifferences a g r td te pairs = Inl e'"
      by auto
    with Inr show ?thesis by simp
  qed
qed

lemma loop_first_error:
  assumes "\<forall>q\<in>set (takeWhile (\<lambda>q. fst q \<noteq> fst p) pairs).
             \<exists>xs. processSourceDifference a g r td te q = Inr xs"
      and "p \<in> set pairs"
      and "processSourceDifference a g r td te p = Inl e"
      and "distinct (map fst pairs)"
  shows "processSourceDifferences a g r td te pairs = Inl e"
  using assms
proof (induction pairs)
  case Nil
  then show ?case by simp
next
  case (Cons q pairs)
  show ?case
  proof (cases "fst q = fst p")
    case True
    with Cons.prems(2,4) have "q = p"
      by (cases q; cases p) (auto simp: image_iff)
    with Cons.prems(3) show ?thesis by simp
  next
    case False
    with Cons.prems(1) obtain xs where q: "processSourceDifference a g r td te q = Inr xs"
      by auto
    from False Cons.prems have "processSourceDifferences a g r td te pairs = Inl e"
      by (intro Cons.IH) auto
    with q show ?thesis by simp
  qed
qed

lemma fatal_step:
  assumes "dict_find td name = Some targetDiff"
      and "entityName sourceDiff = name"
      and "fatal_kinds (ed_type sourceDiff) (ed_type targetDiff)"
  shows "\<exists>m. processSourceDifference a g r td te (name, sourceDiff) = Inl (LogicError m) \<and>
             sublist name m"
proof (cases "ed_type sourceDiff")
  case EntityMissingInSource
  with assms have "processSourceDifference a g r td te (name, sourceDiff) =
      Inl (LogicError (''Error '' @ name @
             '' was marked as removed in source, but as added in target''))"
    by (simp add: processSourceDifference_def fatal_kinds_def)
  then show ?thesis by (metis sublist_appendI)
next
  case EntityMissingInBase
  with assms have "processSourceDifference a g r td te (name, sourceDiff) =
      Inl (LogicError (''Error '' @ name @
             '' was marked as added in source, but removed/modified in target''))"
    by (auto simp: processSourceDifference_def fatal_kinds_def)
  then show ?thesis by (metis sublist_appendI)
next
  case EntityPresentButDifferent
  with assms have "processSourceDifference a g r td te (name, sourceDiff) =
      Inl (LogicError (''Entity '' @ name @
             '' is marked as modified in source, but as added in the target.''))"
    by (simp add: processSourceDifference_def fatal_kinds_def processEntityModification_def)
  then show ?thesis by (metis sublist_appendI)
qed

text \<open>
  Claim C1. When the dictionaries hold a source and a target difference for the same
  entity name and the two kinds are one of the four fatal pairings (added against
  removed, added against modified, removed against added, modified against added),
  visiting that name throws a logic error whose message contains the entity name, the
  operation as a whole ends with an exception and produces no action list, and that
  exception is the one of this pairing unless the visit of an earlier name has thrown
  already.
\<close>

theorem fatal_pairing_raises:
  assumes src: "dict_find (indexDifferences sourceDiffs) name = Some sourceDiff"
      and tgt: "dict_find (indexDifferences targetDiffs) name = Some targetDiff"
      and fatal: "fatal_kinds (ed_type sourceDiff) (ed_type targetDiff)"
  shows "(\<exists>m. processSourceDifference assertions graph targetRoot
                 (indexDifferences targetDiffs)
                 (indexTargetEntities (entityNodes graph targetRoot)) (name, sourceDiff) =
               Inl (LogicError m) \<and> sublist name m) \<and>
         (\<exists>e. processEntityDifferences assertions graph targetRoot sourceDiffs targetDiffs =
               Inl e) \<and>
         ((\<forall>q\<in>set (takeWhile (\<lambda>q. fst q \<noteq> name) (indexDifferences sourceDiffs)).
              \<exists>added. processSourceDifference assertions graph targetRoot
                         (indexDifferences targetDiffs)
                         (indexTargetEntities (entityNodes graph targetRoot)) q = Inr added) \<longrightarrow>
          processEntityDifferences assertions graph targetRoot sourceDiffs targetDiffs =
          processSourceDifference assertions graph targetRoot
            (indexDifferences targetDiffs)
            (indexTargetEntities (entityNodes graph targetRoot)) (name, sourceDiff))"
proof -
  let ?td = "indexDifferences targetDiffs"
  let ?te = "indexTargetEntities (entityNodes graph targetRoot)"
  let ?step = "processSourceDifference assertions graph targetRoot ?td ?te"
  from src have named: "entityName sourceDiff = name"
    by (simp add: indexDifferences_find)
  from fatal_step [OF tgt named fatal]
  obtain m where m: "?step (name, sourceDiff) = Inl (LogicError m)" "sublist name m"
    by blast
  from src have visited: "(name, sourceDiff) \<in> set (indexDifferences sourceDiffs)"
    by (simp add: dict_find_def map_of_SomeD)
  from loop_stops_at_error [OF visited m(1)]
  have raised: "\<exists>e. processEntityDifferences assertions graph targetRoot sourceDiffs targetDiffs =
      Inl e"
    by (simp add: processEntityDifferences_def)
  have first: "processEntityDifferences assertions graph targetRoot sourceDiffs targetDiffs =
      ?step (name, sourceDiff)"
    if "\<forall>q\<in>set (takeWhile (\<lambda>q. fst q \<noteq> name) (indexDifferences sourceDiffs)).
          \<exists>added. ?step q = Inr added"
    using loop_first_error [of "(name, sourceDiff)" "indexDifferences sourceDiffs"
        assertions graph targetRoot ?td ?te "LogicError m"] that visited m(1)
      indexDifferences_distinct [of sourceDiffs]
    by (simp add: processEntityDifferences_def)
  from m raised first show ?thesis by blast
qed

theorem fatal_pairing_raises_witness:
  "fatal_kinds EntityMissingInBase EntityPresentButDifferent \<and>
   processEntityDifferences True
     \<lparr>entityNodes = (\<lambda>r. [(''light_1'', 3)]), CollectPrimitiveFingerprints = (\<lambda>n. Map.empty)\<rparr> 0
     [\<lparr>entityName = ''light_1'', ed_type = EntityMissingInBase, sourceNode = Some 7,
       sourceFingerprint = ''a1'', differingKeyValues = [], differingChildren = []\<rparr>]
     [\<lparr>entityName = ''light_1'', ed_type = EntityPresentButDifferent, sourceNode = Some 3,
       sourceFingerprint = ''b2'', differingKeyValues = [], differingChildren = []\<rparr>] =
   Inl (LogicError
     ''Error light_1 was marked as added in source, but removed/modified in target'')"
proof -
  let ?s = "\<lparr>entityName = ''light_1'', ed_type = EntityMissingInBase, sourceNode = Some 7,
       sourceFingerprint = ''a1'', differingKeyValues = [], differingChildren = []\<rparr>"
  let ?t = "\<lparr>entityName = ''light_1'', ed_type = EntityPresentButDifferent, sourceNode = Some 3,
       sourceFingerprint = ''b2'', differingKeyValues = [], differingChildren = []\<rparr>"
  have s: "dict_find (indexDifferences [?s]) ''light_1'' = Some ?s"
    by (simp add: dict_find_def indexDifferences_def)
  have t: "dict_find (indexDifferences [?t]) ''light_1'' = Some ?t"
    by (simp add: dict_find_def indexDifferences_def)
  have f: "fatal_kinds (ed_type ?s) (ed_type ?t)"
    by (simp add: fatal_kinds_def)
  from fatal_pairing_raises [OF s t f, of True
      "\<lparr>entityNodes = (\<lambda>r. [(''light_1'', 3)]), CollectPrimitiveFingerprints = (\<lambda>n. Map.empty)\<rparr>" 0]
  show ?thesis
    by (simp add: indexDifferences_def dict_find_def processSourceDifference_def
        processEntityDifferences_def fatal_kinds_def)
qed



text \<open>
  Claim C9 says that a removed or modified source entity with no target difference and
  no node of that name in the target graph ends the operation with an error carrying
  the entity name. The check in the code is an \<^verbatim>\<open>assert\<close>: without assertions the
  operation goes on with the empty node pointer, with assertions it aborts on the
  asserted expression, which does not name the entity.
\<close>

theorem missing_target_entity_counterexample:
  "processEntityDifferences False
     \<lparr>entityNodes = (\<lambda>r. []), CollectPrimitiveFingerprints = (\<lambda>n. Map.empty)\<rparr> 0
     [\<lparr>entityName = ''light_1'', ed_type = EntityMissingInSource, sourceNode = None,
       sourceFingerprint = '''', differingKeyValues = [], differingChildren = []\<rparr>] [] =
   Inr [RemoveEntityAction None] \<and>
   processEntityDifferences True
     \<lparr>entityNodes = (\<lambda>r. []), CollectPrimitiveFingerprints = (\<lambda>n. Map.empty)\<rparr> 0
     [\<lparr>entityName = ''light_1'', ed_type = EntityMissingInSource, sourceNode = None,
       sourceFingerprint = '''', differingKeyValues = [], differingChildren = []\<rparr>] [] =
   Inl (AssertionFailed ''entityToRemove'') \<and>
   \<not> sublist ''light_1'' (error_message (AssertionFailed ''entityToRemove''))"
  by (simp add: processEntityDifferences_def indexDifferences_def indexTargetEntities_def
      processSourceDifference_def dict_find_def findTargetEntityByName_def sublist_code)

text \<open>
  Claim C9, as the code has it. For a source difference of kind removed or modified
  with no target difference, whose name no entity of the target graph has: a build
  with assertions aborts on the failed assertion \<^verbatim>\<open>entityToRemove\<close> or
  \<^verbatim>\<open>entityToModify\<close>; a build without them adds the actions against the empty node
  pointer.
\<close>

theorem missing_target_entity:
  assumes "dict_find targetDifferences name = None"
      and "name \<notin> fst ` set (entityNodes graph targetRoot)"
      and "ed_type d = EntityMissingInSource \<or> ed_type d = EntityPresentButDifferent"
  shows "processSourceDifference assertions graph targetRoot targetDifferences
           (indexTargetEntities (entityNodes graph targetRoot)) (name, d) =
         (if assertions
          then Inl (AssertionFailed (if ed_type d = EntityMissingInSource
                                     then ''entityToRemove'' else ''entityToModify''))
          else Inr (if ed_type d = EntityMissingInSource
                    then [RemoveEntityAction None]
                    else map (\<lambda>keyValueDiff. createActionForKeyValueDiff keyValueDiff None)
                           (differingKeyValues d) @
                         concat (map (\<lambda>primitiveDiff. addActionsForPrimitiveDiff primitiveDiff None)
                                   (differingChildren d))))"
proof -
  from assms(2)
  have "findTargetEntityByName (indexTargetEntities (entityNodes graph targetRoot)) name = None"
    by (simp add: findTargetEntityByName_None)
  with assms(1,3) show ?thesis
    by (auto simp: processSourceDifference_def)
qed

theorem missing_target_entity_witness:
  "processSourceDifference False
     \<lparr>entityNodes = (\<lambda>r. [(''door_3'', 2)]), CollectPrimitiveFingerprints = (\<lambda>n. Map.empty)\<rparr> 0
     [] (indexTargetEntities [(''door_3'', 2)])
     (''light_1'',
      \<lparr>entityName = ''light_1'', ed_type = EntityPresentButDifferent, sourceNode = Some 6,
       sourceFingerprint = ''e5'',
       differingKeyValues = [\<lparr>kv_key = ''_color'', kv_value = ''1 0 0'', kv_type = KeyValueChanged\<rparr>],
       differingChildren = []\<rparr>) =
   Inr [ChangeKeyValueAction ''_color'' ''1 0 0'' None]"
proof -
  let ?g = "\<lparr>entityNodes = (\<lambda>r. [(''door_3'', 2::nat)]),
             CollectPrimitiveFingerprints = (\<lambda>n. Map.empty)\<rparr>"
  let ?d = "\<lparr>entityName = ''light_1'', ed_type = EntityPresentButDifferent, sourceNode = Some 6,
       sourceFingerprint = ''e5'',
       differingKeyValues = [\<lparr>kv_key = ''_color'', kv_value = ''1 0 0'', kv_type = KeyValueChanged\<rparr>],
       differingChildren = []\<rparr>"
  have a: "dict_find ([] :: EntityDifference dictionary) ''light_1'' = None"
    by (simp add: dict_find_def)
  have b: "''light_1'' \<notin> fst ` set (entityNodes ?g 0)"
    by simp
  have c: "ed_type ?d = EntityMissingInSource \<or> ed_type ?d = EntityPresentButDifferent"
    by simp
  from missing_target_entity [OF a b c, of False]
  show ?thesis by (simp add: createActionForKeyValueDiff_def)
qed

text \<open>
  Claim C7. When the base roots of the two comparison results differ,
  \<open>CreateFromComparisonResults\<close> throws the runtime error whatever the differences are,
  and no operation is produced; when they are the same, the result is that of
  reconciling the differences: the operation with its action list, or the exception of
  the reconciliation.
\<close>

theorem base_roots_must_agree:
  "(baseRootNode baseToSource \<noteq> baseRootNode baseToTarget \<longrightarrow>
      CreateFromComparisonResults assertions graph baseToSource baseToTarget =
      Inl (RuntimeError ''The base scene of the two comparison results must be the same'')) \<and>
   (baseRootNode baseToSource = baseRootNode baseToTarget \<longrightarrow>
      CreateFromComparisonResults assertions graph baseToSource baseToTarget =
      (case processEntityDifferences assertions graph (sourceRootNode baseToTarget)
              (differingEntities baseToSource) (differingEntities baseToTarget) of
         Inl e \<Rightarrow> Inl e
       | Inr added \<Rightarrow>
           Inr \<lparr>op_baseRoot = baseRootNode baseToSource,
                op_sourceRoot = sourceRootNode baseToSource,
                op_targetRoot = sourceRootNode baseToTarget,
                op_actions = added\<rparr>))"
  by (simp add: CreateFromComparisonResults_def)

theorem base_roots_must_agree_witness:
  "CreateFromComparisonResults True
     \<lparr>entityNodes = (\<lambda>r. []), CollectPrimitiveFingerprints = (\<lambda>n. Map.empty)\<rparr>
     \<lparr>baseRootNode = 1, sourceRootNode = 2,
      differingEntities =
        [\<lparr>entityName = ''crate_7'', ed_type = EntityMissingInBase, sourceNode = Some 8,
          sourceFingerprint = ''f6'', differingKeyValues = [], differingChildren = []\<rparr>]\<rparr>
     \<lparr>baseRootNode = 5, sourceRootNode = 3, differingEntities = []\<rparr> =
   Inl (RuntimeError ''The base scene of the two comparison results must be the same'') \<and>
   CreateFromComparisonResults True
     \<lparr>entityNodes = (\<lambda>r. []), CollectPrimitiveFingerprints = (\<lambda>n. Map.empty)\<rparr>
     \<lparr>baseRootNode = 1, sourceRootNode = 2,
      differingEntities =
        [\<lparr>entityName = ''crate_7'', ed_type = EntityMissingInBase, sourceNode = Some 8,
          sourceFingerprint = ''f6'', differingKeyValues = [], differingChildren = []\<rparr>]\<rparr>
     \<lparr>baseRootNode = 1, sourceRootNode = 3, differingEntities = []\<rparr> =
   Inr \<lparr>op_baseRoot = 1, op_sourceRoot = 2, op_targetRoot = 3,
        op_actions = [AddEntityAction (Some 8) 3]\<rparr>"
  using base_roots_must_agree [of
      "\<lparr>baseRootNode = 1, sourceRootNode = 2,
      differingEntities =
        [\<lparr>entityName = ''crate_7'', ed_type = EntityMissingInBase, sourceNode = Some 8,
          sourceFingerprint = ''f6'', differingKeyValues = [], differingChildren = []\<rparr>]\<rparr>"
      "\<lparr>baseRootNode = 5, sourceRootNode = 3, differingEntities = []\<rparr>" True
      "\<lparr>entityNodes = (\<lambda>r. []), CollectPrimitiveFingerprints = (\<lambda>n. Map.empty)\<rparr>"]
    base_roots_must_agree [of
      "\<lparr>baseRootNode = 1, sourceRootNode = 2,
      differingEntities =
        [\<lparr>entityName = ''crate_7'', ed_type = EntityMissingInBase, sourceNode = Some 8,
          sourceFingerprint = ''f6'', differingKeyValues = [], differingChildren = []\<rparr>]\<rparr>"
      "\<lparr>baseRootNode = 1, sourceRootNode = 3, differingEntities = []\<rparr>" True
      "\<lparr>entityNodes = (\<lambda>r. []), CollectPrimitiveFingerprints = (\<lambda>n. Map.empty)\<rparr>"]
  by (simp add: processEntityDifferences_def indexDifferences_def indexTargetEntities_def
      processSourceDifference_def dict_find_def)

section \<open>Visiting order\<close>

lemma loop_actions:
  "processSourceDifferences a g r td te pairs = Inr added \<Longrightarrow>
   added = concat (map (\<lambda>p. case processSourceDifference a g r td te p of
                               Inl e \<Rightarrow> [] | Inr xs \<Rightarrow> xs) pairs)"
proof (induction pairs arbitrary: added)
  case Nil
  then show ?case by simp
next
  case (Cons p pairs)
  from Cons.prems obtain xs ys where
    "processSourceDifference a g r td te p = Inr xs"
    "processSourceDifferences a g r td te pairs = Inr ys" "added = xs @ ys"
    by (auto simp: then_actions_Inr)
  with Cons.IH [of ys] show ?case by simp
qed

lemma remdups_skip: "n \<in> set ys \<Longrightarrow> remdups (xs @ n # ys) = remdups (xs @ ys)"
  by (induction xs) auto

lemma foldl_assign_names:
  "distinct (map fst acc) \<Longrightarrow>
   map fst (foldl (\<lambda>m d. dict_assign (entityName d) d m) acc diffs) =
   rev (remdups (rev (map fst acc @ map entityName diffs)))"
proof (induction diffs arbitrary: acc)
  case Nil
  then show ?case by (simp add: distinct_remdups_id)
next
  case (Cons x diffs)
  let ?acc = "dict_assign (entityName x) x acc"
  from Cons.prems have "distinct (map fst ?acc)"
    by (rule distinct_dict_assign)
  then have step: "map fst (foldl (\<lambda>m d. dict_assign (entityName d) d m) ?acc diffs) =
      rev (remdups (rev (map fst ?acc @ map entityName diffs)))"
    by (rule Cons.IH)
  show ?case
  proof (cases "entityName x \<in> fst ` set acc")
    case True
    then have "remdups (rev (map entityName diffs) @ entityName x # rev (map fst acc)) =
        remdups (rev (map entityName diffs) @ rev (map fst acc))"
      by (intro remdups_skip) simp
    with True step show ?thesis by (simp add: names_dict_assign)
  next
    case False
    with step show ?thesis by (simp add: names_dict_assign)
  qed
qed

lemma visited_names_first_seen:
  "visited_names sourceDiffs = rev (remdups (rev (map entityName sourceDiffs)))"
  using foldl_assign_names [of "[]" sourceDiffs]
  by (simp add: visited_names_def indexDifferences_def)

text \<open>
  Claim C8. The names are visited in the order in which they first appear in the
  sequence of the source comparison result, each name once: for a result with one
  difference per name that is the order of the sequence itself. When the operation
  succeeds its action list is the concatenation, in that order, of the actions added
  for each name.
\<close>

theorem visiting_order_source_sequence:
  "visited_names sourceDiffs = rev (remdups (rev (map entityName sourceDiffs))) \<and>
   (distinct (map entityName sourceDiffs) \<longrightarrow>
      visited_names sourceDiffs = map entityName sourceDiffs) \<and>
   (\<forall>added. processEntityDifferences assertions graph targetRoot sourceDiffs targetDiffs =
              Inr added \<longrightarrow>
            added = concat (map (emitted_for assertions graph targetRoot sourceDiffs targetDiffs)
                              (visited_names sourceDiffs)))"
proof -
  let ?td = "indexDifferences targetDiffs"
  let ?te = "indexTargetEntities (entityNodes graph targetRoot)"
  let ?step = "processSourceDifference assertions graph targetRoot ?td ?te"
  have "(case ?step p of Inl e \<Rightarrow> [] | Inr xs \<Rightarrow> xs) =
        emitted_for assertions graph targetRoot sourceDiffs targetDiffs (fst p)"
    if "p \<in> set (indexDifferences sourceDiffs)" for p
    using indexDifferences_member [OF that] by (simp add: emitted_for_def)
  then have "concat (map (\<lambda>p. case ?step p of Inl e \<Rightarrow> [] | Inr xs \<Rightarrow> xs)
                       (indexDifferences sourceDiffs)) =
             concat (map (emitted_for assertions graph targetRoot sourceDiffs targetDiffs)
                       (visited_names sourceDiffs))"
    by (simp add: visited_names_def comp_def cong: map_cong)
  then have emitted: "\<forall>added.
      processEntityDifferences assertions graph targetRoot sourceDiffs targetDiffs = Inr added \<longrightarrow>
      added = concat (map (emitted_for assertions graph targetRoot sourceDiffs targetDiffs)
                        (visited_names sourceDiffs))"
    using loop_actions [of assertions graph targetRoot ?td ?te "indexDifferences sourceDiffs"]
    by (simp add: processEntityDifferences_def)
  have "visited_names sourceDiffs = map entityName sourceDiffs"
    if "distinct (map entityName sourceDiffs)"
    using that by (simp add: visited_names_first_seen distinct_remdups_id)
  with emitted show ?thesis
    by (simp add: visited_names_first_seen)
qed

theorem visiting_order_source_sequence_witness:
  "visited_names
     [\<lparr>entityName = ''statue_b'', ed_type = EntityMissingInBase, sourceNode = Some 1,
       sourceFingerprint = ''b'', differingKeyValues = [], differingChildren = []\<rparr>,
      \<lparr>entityName = ''statue_a'', ed_type = EntityMissingInBase, sourceNode = Some 2,
       sourceFingerprint = ''a'', differingKeyValues = [], differingChildren = []\<rparr>] =
   [''statue_b'', ''statue_a''] \<and>
   processEntityDifferences True
     \<lparr>entityNodes = (\<lambda>r. []), CollectPrimitiveFingerprints = (\<lambda>n. Map.empty)\<rparr> 0
     [\<lparr>entityName = ''statue_b'', ed_type = EntityMissingInBase, sourceNode = Some 1,
       sourceFingerprint = ''b'', differingKeyValues = [], differingChildren = []\<rparr>,
      \<lparr>entityName = ''statue_a'', ed_type = EntityMissingInBase, sourceNode = Some 2,
       sourceFingerprint = ''a'', differingKeyValues = [], differingChildren = []\<rparr>] [] =
   Inr [AddEntityAction (Some 1) 0, AddEntityAction (Some 2) 0]"
  using visiting_order_source_sequence [of
     "[\<lparr>entityName = ''statue_b'', ed_type = EntityMissingInBase, sourceNode = Some 1,
       sourceFingerprint = ''b'', differingKeyValues = [], differingChildren = []\<rparr>,
      \<lparr>entityName = ''statue_a'', ed_type = EntityMissingInBase, sourceNode = Some 2,
       sourceFingerprint = ''a'', differingKeyValues = [], differingChildren = []\<rparr>]"
     True
     "\<lparr>entityNodes = (\<lambda>r. []), CollectPrimitiveFingerprints = (\<lambda>n. Map.empty)\<rparr>" 0 "[]"]
  by (simp add: processEntityDifferences_def indexDifferences_def indexTargetEntities_def
      processSourceDifference_def dict_find_def)

section \<open>Reconciliation below an entity\<close>

lemma FindTargetDiffByKey_Some:
  "FindTargetDiffByKey ts k = Some t \<Longrightarrow> iequals (kv_key t) k \<and> t \<in> set ts"
  by (auto simp: FindTargetDiffByKey_def find_Some_iff)

lemma action_key_create [simp]:
  "action_key (createActionForKeyValueDiff d e) = Some (kv_key d)"
  by (cases "kv_type d") (simp_all add: createActionForKeyValueDiff_def)















section \<open>Merging a comparison result with itself\<close>

lemma difference_member:
  "keyvalues_difference base other kvs \<Longrightarrow> d \<in> set kvs \<Longrightarrow>
   base (map to_lower (kv_key d)) = None \<and> kv_type d = KeyValueAdded \<and>
     other (map to_lower (kv_key d)) = Some (kv_value d) \<or>
   base (map to_lower (kv_key d)) \<noteq> None \<and> kv_type d = KeyValueChanged \<and>
     other (map to_lower (kv_key d)) = Some (kv_value d) \<or>
   kv_type d = KeyValueRemoved \<and> other (map to_lower (kv_key d)) = None"
  by (cases "kv_type d") (auto simp: keyvalues_difference_def list_all_iff)

lemma same_key_equal:
  assumes "keyvalues_difference base other kvs"
      and "s \<in> set kvs" and "t \<in> set kvs"
      and "iequals (kv_key t) (kv_key s)"
  shows "kv_equal s t"
proof -
  from assms(4) have key: "map to_lower (kv_key t) = map to_lower (kv_key s)"
    by (simp add: iequals_def)
  from difference_member [OF assms(1,2)] difference_member [OF assms(1,3)]
  show ?thesis
    unfolding key kv_equal_def iequals_def by auto
qed

lemma find_on_own_key:
  assumes "s \<in> set kvs"
  shows "\<exists>t. FindTargetDiffByKey kvs (kv_key s) = Some t \<and> t \<in> set kvs \<and>
             iequals (kv_key t) (kv_key s)"
proof (cases "FindTargetDiffByKey kvs (kv_key s)")
  case None
  with assms have "\<not> iequals (kv_key s) (kv_key s)"
    by (auto simp: FindTargetDiffByKey_def find_None_iff)
  then show ?thesis by (simp add: iequals_def)
next
  case (Some t)
  then show ?thesis by (simp add: FindTargetDiffByKey_Some)
qed

lemma same_keyvalues_no_action:
  "keyvalues_difference base other kvs \<Longrightarrow> set kvs' \<subseteq> set kvs \<Longrightarrow>
   processKeyValueDiffs a tn kvs kvs' = Inr []"
proof (induction kvs')
  case Nil
  then show ?case by simp
next
  case (Cons s kvs')
  then have mem: "s \<in> set kvs" by simp
  then obtain t where t: "FindTargetDiffByKey kvs (kv_key s) = Some t" "t \<in> set kvs"
      "iequals (kv_key t) (kv_key s)"
    using find_on_own_key by blast
  from Cons.prems(1) mem t(2,3) have "kv_equal s t"
    by (rule same_key_equal)
  with t(1) have "processKeyValueDiff a tn kvs s = Inr []"
    by (simp add: processKeyValueDiff_def)
  moreover from Cons have "processKeyValueDiffs a tn kvs kvs' = Inr []"
    by simp
  ultimately show ?case by simp
qed

lemma reflected_children_no_action:
  "children_reflected g d \<Longrightarrow>
   concat (map (processPrimitiveDiff (CollectPrimitiveFingerprints g (sourceNode d)) (sourceNode d))
             (differingChildren d)) = []"
  by (auto simp: children_reflected_def list_all_iff processPrimitiveDiff_def Let_def
      split: PrimitiveDifferenceType.splits)

lemma same_difference_no_action:
  assumes "dict_find td (fst p) = Some (snd p)"
      and "ed_type (snd p) = EntityPresentButDifferent \<longrightarrow>
             children_reflected g (snd p) \<and>
             (\<exists>base other. keyvalues_difference base other (differingKeyValues (snd p)))"
  shows "processSourceDifference a g r td te p = Inr []"
proof (cases "ed_type (snd p)")
  case EntityMissingInSource
  with assms(1) show ?thesis by (simp add: processSourceDifference_def)
next
  case EntityMissingInBase
  with assms(1) show ?thesis by (simp add: processSourceDifference_def)
next
  case EntityPresentButDifferent
  with assms(2) obtain base other where
    "children_reflected g (snd p)"
    "keyvalues_difference base other (differingKeyValues (snd p))"
    by blast
  with EntityPresentButDifferent
  have "processEntityModification a g r (snd p) (snd p) = Inr []"
    by (simp add: processEntityModification_def reflected_children_no_action
        same_keyvalues_no_action [of base other])
  with EntityPresentButDifferent assms(1) show ?thesis
    by (simp add: processSourceDifference_def)
qed

lemma loop_no_action:
  "\<forall>p\<in>set pairs. processSourceDifference a g r td te p = Inr [] \<Longrightarrow>
   processSourceDifferences a g r td te pairs = Inr []"
  by (induction pairs) simp_all

text \<open>
  Claim C6. Merging a comparison result with itself adds no action, and so no
  conflict-resolution action: the two difference lists are the same list, and for
  every entity it marks as modified the key-value differences are the difference of
  the entity's key-values against some base and the target graph reflects the child
  differences.
\<close>

theorem identical_results_merge_empty:
  assumes "\<forall>d\<in>set diffs. ed_type d = EntityPresentButDifferent \<longrightarrow>
             children_reflected graph d \<and>
             (\<exists>base other. keyvalues_difference base other (differingKeyValues d))"
  shows "processEntityDifferences assertions graph targetRoot diffs diffs = Inr []"
proof -
  let ?td = "indexDifferences diffs"
  have "processSourceDifference assertions graph targetRoot ?td
          (indexTargetEntities (entityNodes graph targetRoot)) p = Inr []"
    if "p \<in> set ?td" for p
  proof -
    from that have found: "dict_find ?td (fst p) = Some (snd p)"
      by (rule indexDifferences_member)
    then have "snd p \<in> set diffs"
      by (simp add: indexDifferences_find)
    with assms have "ed_type (snd p) = EntityPresentButDifferent \<longrightarrow>
        children_reflected graph (snd p) \<and>
        (\<exists>base other. keyvalues_difference base other (differingKeyValues (snd p)))"
      by blast
    with found show ?thesis by (rule same_difference_no_action)
  qed
  then show ?thesis
    by (simp add: processEntityDifferences_def loop_no_action)
qed

theorem identical_results_merge_empty_witness:
  "processEntityDifferences True
     \<lparr>entityNodes = (\<lambda>r. [(''door_1'', 5), (''lamp_2'', 6)]),
      CollectPrimitiveFingerprints = (\<lambda>n. [''brush_x'' \<mapsto> 11])\<rparr> 0
     [\<lparr>entityName = ''lamp_2'', ed_type = EntityMissingInBase, sourceNode = Some 6,
       sourceFingerprint = ''l'', differingKeyValues = [], differingChildren = []\<rparr>,
      \<lparr>entityName = ''door_1'', ed_type = EntityPresentButDifferent, sourceNode = Some 5,
       sourceFingerprint = ''d'',
       differingKeyValues = [\<lparr>kv_key = ''frobable'', kv_value = ''1'', kv_type = KeyValueAdded\<rparr>,
                             \<lparr>kv_key = ''Locked'', kv_value = '''', kv_type = KeyValueRemoved\<rparr>,
                             \<lparr>kv_key = ''Frobable'', kv_value = ''1'', kv_type = KeyValueAdded\<rparr>],
       differingChildren =
         [\<lparr>pd_fingerprint = ''brush_x'', pd_node = Some 11, pd_type = PrimitiveAdded\<rparr>,
          \<lparr>pd_fingerprint = ''brush_y'', pd_node = Some 12, pd_type = PrimitiveRemoved\<rparr>]\<rparr>,
      \<lparr>entityName = ''crate_3'', ed_type = EntityMissingInSource, sourceNode = Some 7,
       sourceFingerprint = ''c'', differingKeyValues = [], differingChildren = []\<rparr>]
     [\<lparr>entityName = ''lamp_2'', ed_type = EntityMissingInBase, sourceNode = Some 6,
       sourceFingerprint = ''l'', differingKeyValues = [], differingChildren = []\<rparr>,
      \<lparr>entityName = ''door_1'', ed_type = EntityPresentButDifferent, sourceNode = Some 5,
       sourceFingerprint = ''d'',
       differingKeyValues = [\<lparr>kv_key = ''frobable'', kv_value = ''1'', kv_type = KeyValueAdded\<rparr>,
                             \<lparr>kv_key = ''Locked'', kv_value = '''', kv_type = KeyValueRemoved\<rparr>,
                             \<lparr>kv_key = ''Frobable'', kv_value = ''1'', kv_type = KeyValueAdded\<rparr>],
       differingChildren =
         [\<lparr>pd_fingerprint = ''brush_x'', pd_node = Some 11, pd_type = PrimitiveAdded\<rparr>,
          \<lparr>pd_fingerprint = ''brush_y'', pd_node = Some 12, pd_type = PrimitiveRemoved\<rparr>]\<rparr>,
      \<lparr>entityName = ''crate_3'', ed_type = EntityMissingInSource, sourceNode = Some 7,
       sourceFingerprint = ''c'', differingKeyValues = [], differingChildren = []\<rparr>] =
   Inr []"
proof -
  have kv: "keyvalues_difference [''locked'' \<mapsto> ''1''] [''frobable'' \<mapsto> ''1'']
      [\<lparr>kv_key = ''frobable'', kv_value = ''1'', kv_type = KeyValueAdded\<rparr>,
       \<lparr>kv_key = ''Locked'', kv_value = '''', kv_type = KeyValueRemoved\<rparr>,
       \<lparr>kv_key = ''Frobable'', kv_value = ''1'', kv_type = KeyValueAdded\<rparr>]"
    by (simp add: keyvalues_difference_def to_lower_def)
  show ?thesis
    by (rule identical_results_merge_empty)
       (use kv in \<open>auto simp: children_reflected_def\<close>)
qed

end
